theory Spec2Isabelle
  imports Complex_Main "HOL-Library.AList"
begin

section \<open>Data model of the shop API (src/lecture_2/hw/shop_api/main.py)\<close>

text \<open>
  The pydantic models become records. Several models share the field names \<open>id\<close>,
  \<open>name\<close> and \<open>price\<close>; a record field is a constant, so each field carries the
  model's name as a prefix. Python's \<open>int\<close> is \<open>int\<close>, \<open>str\<close> is \<open>string\<close>.
  A stored price is a Python \<open>float\<close>, taken as the real number that a finite double
  is. Where the code computes with floats, in the price of a cart view, the result is
  a value of a type \<open>'f\<close> and the operations are the fields of an \<open>arith\<close> record that
  the handlers take as a parameter: what is proved for every \<open>arith\<close> holds whatever
  the operations round to. \<open>double_arith\<close> below is the arithmetic of IEEE doubles.
\<close>

record item =
  item_id :: int
  item_name :: string
  item_price :: real
  item_deleted :: bool

record cart_item =
  ci_id :: int
  ci_name :: string
  ci_quantity :: int
  ci_available :: bool

record cart =
  cart_id :: int
  cart_item_ids :: "int list"

record 'f cart_response =
  resp_id :: int
  resp_items :: "cart_item list"
  resp_price :: 'f

record create_item_request =
  req_name :: string
  req_price :: real

record update_item_request =
  upd_name :: "string option"
  upd_price :: "real option"

text \<open>
  Everything the handlers can raise. The three \<open>HTTPException\<close>s all carry the status
  \<open>NOT_FOUND\<close>; their detail message names the collection and the id.
  \<open>AttributeError\<close> is what \<open>item.name\<close> raises when \<open>items_map.get(id)\<close> returned \<open>None\<close>,
  \<open>KeyError\<close> what \<open>d[k]\<close> raises on a missing key, and \<open>RequestValidationError\<close> is the
  rejection (status 422) of a query parameter that breaks its declared \<open>Query\<close> bound.
\<close>

datatype detail = Cart_not_found int | Item_not_found int | Item_was_deleted int

datatype error =
    HTTPException_NOT_FOUND detail
  | AttributeError
  | KeyError
  | RequestValidationError

datatype http_status = OK | NOT_MODIFIED

fun is_not_found :: "error + 'a \<Rightarrow> bool" where
  "is_not_found (Inl (HTTPException_NOT_FOUND d)) = True"
| "is_not_found r = False"

text \<open>
  The two module-level dictionaries. A Python \<open>dict\<close> keeps its keys in insertion order
  and \<open>values()\<close> lists them in that order, which the list endpoints show, so a
  dictionary is an association list: \<open>d.get(k)\<close> is \<open>map_of d k\<close>, \<open>d[k] = v\<close> is
  \<open>AList.update k v d\<close> (in place for a key that is present, appended otherwise),
  \<open>len(d)\<close> is \<open>length d\<close> and \<open>d.values()\<close> is \<open>map snd d\<close>.
\<close>

type_synonym 'v dict = "(int \<times> 'v) list"

record store =
  items_map :: "item dict"
  cart_map :: "cart dict"

definition empty_store :: store where
  "empty_store = \<lparr>items_map = [], cart_map = []\<rparr>"

definition getitem :: "'v dict \<Rightarrow> int \<Rightarrow> error + 'v" where
  "getitem d k = (case map_of d k of None \<Rightarrow> Inl KeyError | Some v \<Rightarrow> Inr v)"

section \<open>Cart views\<close>

definition build_cart_item :: "item dict \<Rightarrow> int \<Rightarrow> int \<Rightarrow> error + cart_item" where
  "build_cart_item im i count =
     (case map_of im i of
        None \<Rightarrow> Inl AttributeError
      | Some it \<Rightarrow>
          Inr \<lparr>ci_id = i, ci_name = item_name it, ci_quantity = count,
               ci_available = (\<not> item_deleted it)\<rparr>)"

text \<open>\<open>Counter(iterable)\<close>: for each element, \<open>c[x] = c.get(x, 0) + 1\<close>.\<close>

fun count_elements :: "int dict \<Rightarrow> int list \<Rightarrow> int dict" where
  "count_elements c [] = c"
| "count_elements c (x # xs) =
     count_elements
       (AList.update x ((case map_of c x of None \<Rightarrow> 0 | Some n \<Rightarrow> n) + 1) c) xs"

definition Counter :: "int list \<Rightarrow> int dict" where
  "Counter xs = count_elements [] xs"

text \<open>The list comprehension over \<open>counter.items()\<close>; the first failing element raises.\<close>

fun build_cart_items :: "item dict \<Rightarrow> (int \<times> int) list \<Rightarrow> error + cart_item list" where
  "build_cart_items im [] = Inr []"
| "build_cart_items im ((i, count) # rest) =
     (case build_cart_item im i count of
        Inl e \<Rightarrow> Inl e
      | Inr ci \<Rightarrow>
          (case build_cart_items im rest of
             Inl e \<Rightarrow> Inl e
           | Inr lines \<Rightarrow> Inr (ci # lines)))"

text \<open>
  The float operations of the handlers: \<open>fzero\<close> is the 0 that \<open>sum\<close> starts from,
  \<open>fadd\<close> is \<open>+\<close> on the running sum, \<open>fmul\<close> is \<open>*\<close> of an \<open>int\<close> quantity and a
  stored price, \<open>fge\<close> and \<open>fle\<close> are \<open>>=\<close> and \<open><=\<close> of a computed price and a
  query bound.
\<close>

record 'f arith =
  fzero :: 'f
  fadd :: "'f \<Rightarrow> 'f \<Rightarrow> 'f"
  fmul :: "int \<Rightarrow> real \<Rightarrow> 'f"
  fge :: "'f \<Rightarrow> real \<Rightarrow> bool"
  fle :: "'f \<Rightarrow> real \<Rightarrow> bool"

text \<open>
  \<open>sum(item.quantity * items_map[item.id].price for item in items if item.available)\<close>:
  the accumulator starts at 0 and the terms are added from left to right.
\<close>

fun sum_prices :: "'f arith \<Rightarrow> item dict \<Rightarrow> 'f \<Rightarrow> cart_item list \<Rightarrow> error + 'f" where
  "sum_prices ops im acc [] = Inr acc"
| "sum_prices ops im acc (ci # lines) =
     (if ci_available ci then
        (case getitem im (ci_id ci) of
           Inl e \<Rightarrow> Inl e
         | Inr it \<Rightarrow>
             sum_prices ops im (fadd ops acc (fmul ops (ci_quantity ci) (item_price it))) lines)
      else sum_prices ops im acc lines)"

definition build_cart_response ::
    "'f arith \<Rightarrow> item dict \<Rightarrow> cart \<Rightarrow> error + 'f cart_response" where
  "build_cart_response ops im c =
     (case build_cart_items im (Counter (cart_item_ids c)) of
        Inl e \<Rightarrow> Inl e
      | Inr items \<Rightarrow>
          (case sum_prices ops im (fzero ops) items of
             Inl e \<Rightarrow> Inl e
           | Inr p \<Rightarrow> Inr \<lparr>resp_id = cart_id c, resp_items = items, resp_price = p\<rparr>))"

definition build_item :: "int \<Rightarrow> create_item_request \<Rightarrow> item" where
  "build_item i request =
     \<lparr>item_id = i, item_name = req_name request, item_price = req_price request,
      item_deleted = False\<rparr>"

definition assert_cart_exists :: "store \<Rightarrow> int \<Rightarrow> error + unit" where
  "assert_cart_exists s cid =
     (if map_of (cart_map s) cid = None
      then Inl (HTTPException_NOT_FOUND (Cart_not_found cid)) else Inr ())"

definition assert_item_exists :: "store \<Rightarrow> int \<Rightarrow> error + unit" where
  "assert_item_exists s i =
     (if map_of (items_map s) i = None
      then Inl (HTTPException_NOT_FOUND (Item_not_found i)) else Inr ())"

section \<open>Pagination\<close>

text \<open>
  \<open>data[start:stop]\<close> for integer bounds: a negative bound counts from the end, and
  every bound is clamped to the list.
\<close>

definition slice_index :: "nat \<Rightarrow> int \<Rightarrow> nat" where
  "slice_index n i =
     (if i < 0 then (if i + int n < 0 then 0 else nat (i + int n))
      else (if int n \<le> i then n else nat i))"

definition py_slice :: "'a list \<Rightarrow> int \<Rightarrow> int \<Rightarrow> 'a list" where
  "py_slice xs start stop =
     (let a = slice_index (length xs) start; b = slice_index (length xs) stop
      in take (b - a) (drop a xs))"

definition apply_offset_limit :: "'a list \<Rightarrow> int \<Rightarrow> int \<Rightarrow> 'a list" where
  "apply_offset_limit data offset limit =
     py_slice data offset (min (int (length data)) (offset + limit))"

section \<open>Handlers\<close>

text \<open>
  A handler takes the store and returns its result, with the new store when it writes.
  Every handler raises before its first write, so an error leaves the store as it was.
\<close>

definition create_cart :: "store \<Rightarrow> int \<times> store" where
  "create_cart s =
     (let i = int (length (items_map s)) + 1;
          c = \<lparr>cart_id = i, cart_item_ids = []\<rparr>
      in (i, s\<lparr>cart_map := AList.update i c (cart_map s)\<rparr>))"

definition create_item :: "store \<Rightarrow> create_item_request \<Rightarrow> item \<times> store" where
  "create_item s request =
     (let i = int (length (items_map s)) + 1;
          it = build_item i request
      in (it, s\<lparr>items_map := AList.update i it (items_map s)\<rparr>))"


definition get_item :: "store \<Rightarrow> int \<Rightarrow> error + item" where
  "get_item s i =
     (case assert_item_exists s i of
        Inl e \<Rightarrow> Inl e
      | Inr u \<Rightarrow>
          (case getitem (items_map s) i of
             Inl e \<Rightarrow> Inl e
           | Inr it \<Rightarrow>
               if item_deleted it then Inl (HTTPException_NOT_FOUND (Item_was_deleted i))
               else Inr it))"

text \<open>The declared bounds of \<open>Query\<close>: a parameter left out (\<open>None\<close>) is not checked.\<close>

definition query_ge :: "'a::linorder \<Rightarrow> 'a option \<Rightarrow> bool" where
  "query_ge b v = (case v of None \<Rightarrow> True | Some x \<Rightarrow> b \<le> x)"

definition query_gt :: "'a::linorder \<Rightarrow> 'a option \<Rightarrow> bool" where
  "query_gt b v = (case v of None \<Rightarrow> True | Some x \<Rightarrow> b < x)"

fun build_cart_responses ::
    "'f arith \<Rightarrow> item dict \<Rightarrow> cart list \<Rightarrow> error + 'f cart_response list" where
  "build_cart_responses ops im [] = Inr []"
| "build_cart_responses ops im (c # cs) =
     (case build_cart_response ops im c of
        Inl e \<Rightarrow> Inl e
      | Inr r \<Rightarrow>
          (case build_cart_responses ops im cs of
             Inl e \<Rightarrow> Inl e
           | Inr rs \<Rightarrow> Inr (r # rs)))"

definition cart_selected ::
    "'f arith \<Rightarrow> real option \<Rightarrow> real option \<Rightarrow> int option \<Rightarrow> int option
      \<Rightarrow> 'f cart_response \<Rightarrow> bool" where
  "cart_selected ops min_price max_price min_quantity max_quantity r =
     ((min_price = None \<or> fge ops (resp_price r) (the min_price)) \<and>
      (max_price = None \<or> fle ops (resp_price r) (the max_price)) \<and>
      (min_quantity = None \<or> the min_quantity \<le> sum_list (map ci_quantity (resp_items r))) \<and>
      (max_quantity = None \<or> sum_list (map ci_quantity (resp_items r)) \<le> the max_quantity))"

text \<open>The body of \<open>get_carts\<close>, run on parameters that passed their bounds.\<close>

definition get_carts_body ::
    "'f arith \<Rightarrow> store \<Rightarrow> int \<Rightarrow> int \<Rightarrow> real option \<Rightarrow> real option \<Rightarrow> int option
      \<Rightarrow> int option \<Rightarrow> error + 'f cart_response list" where
  "get_carts_body ops s offset limit min_price max_price min_quantity max_quantity =
     (case build_cart_responses ops (items_map s) (map snd (cart_map s)) of
        Inl e \<Rightarrow> Inl e
      | Inr carts \<Rightarrow>
          Inr (apply_offset_limit
                 (filter (cart_selected ops min_price max_price min_quantity max_quantity) carts)
                 offset limit))"

definition get_carts_query_ok ::
    "int \<Rightarrow> int \<Rightarrow> real option \<Rightarrow> real option \<Rightarrow> int option \<Rightarrow> int option \<Rightarrow> bool" where
  "get_carts_query_ok offset limit min_price max_price min_quantity max_quantity =
     (query_ge 0 (Some offset) \<and> query_gt 0 (Some limit) \<and>
      query_ge 0 min_price \<and> query_ge 0 max_price \<and>
      query_ge 0 min_quantity \<and> query_ge 0 max_quantity)"

definition get_carts ::
    "'f arith \<Rightarrow> store \<Rightarrow> int \<Rightarrow> int \<Rightarrow> real option \<Rightarrow> real option \<Rightarrow> int option
      \<Rightarrow> int option \<Rightarrow> error + 'f cart_response list" where
  "get_carts ops s offset limit min_price max_price min_quantity max_quantity =
     (if get_carts_query_ok offset limit min_price max_price min_quantity max_quantity
      then get_carts_body ops s offset limit min_price max_price min_quantity max_quantity
      else Inl RequestValidationError)"

definition add_item_to_cart :: "store \<Rightarrow> int \<Rightarrow> int \<Rightarrow> error + store" where
  "add_item_to_cart s cid iid =
     (case assert_cart_exists s cid of
        Inl e \<Rightarrow> Inl e
      | Inr u \<Rightarrow>
          (case assert_item_exists s iid of
             Inl e \<Rightarrow> Inl e
           | Inr u \<Rightarrow>
               (case getitem (cart_map s) cid of
                  Inl e \<Rightarrow> Inl e
                | Inr c \<Rightarrow>
                    Inr (s\<lparr>cart_map :=
                           AList.update cid (c\<lparr>cart_item_ids := cart_item_ids c @ [iid]\<rparr>)
                             (cart_map s)\<rparr>))))"

definition item_selected :: "real option \<Rightarrow> real option \<Rightarrow> bool \<Rightarrow> item \<Rightarrow> bool" where
  "item_selected min_price max_price show_deleted it =
     ((min_price = None \<or> the min_price \<le> item_price it) \<and>
      (max_price = None \<or> item_price it \<le> the max_price) \<and>
      (show_deleted \<or> \<not> item_deleted it))"

definition items_filtered :: "store \<Rightarrow> real option \<Rightarrow> real option \<Rightarrow> bool \<Rightarrow> item list" where
  "items_filtered s min_price max_price show_deleted =
     filter (item_selected min_price max_price show_deleted) (map snd (items_map s))"

definition get_items_body ::
    "store \<Rightarrow> int \<Rightarrow> int \<Rightarrow> real option \<Rightarrow> real option \<Rightarrow> bool \<Rightarrow> item list" where
  "get_items_body s offset limit min_price max_price show_deleted =
     apply_offset_limit (items_filtered s min_price max_price show_deleted) offset limit"

definition get_items_query_ok :: "int \<Rightarrow> int \<Rightarrow> real option \<Rightarrow> real option \<Rightarrow> bool" where
  "get_items_query_ok offset limit min_price max_price =
     (query_ge 0 (Some offset) \<and> query_gt 0 (Some limit) \<and>
      query_gt 0 min_price \<and> query_gt 0 max_price)"

definition get_items ::
    "store \<Rightarrow> int \<Rightarrow> int \<Rightarrow> real option \<Rightarrow> real option \<Rightarrow> bool \<Rightarrow> error + item list" where
  "get_items s offset limit min_price max_price show_deleted =
     (if get_items_query_ok offset limit min_price max_price
      then Inr (get_items_body s offset limit min_price max_price show_deleted)
      else Inl RequestValidationError)"

definition put_item :: "store \<Rightarrow> int \<Rightarrow> create_item_request \<Rightarrow> error + item \<times> store" where
  "put_item s i request =
     (case assert_item_exists s i of
        Inl e \<Rightarrow> Inl e
      | Inr u \<Rightarrow>
          (let it = build_item i request
           in Inr (it, s\<lparr>items_map := AList.update i it (items_map s)\<rparr>)))"

text \<open>
  \<open>patch_item\<close> also returns the status of the response: \<open>NOT_MODIFIED\<close> where the
  handler sets it, the default \<open>OK\<close> otherwise. The item is changed in place, so the
  dictionary holds the changed item under the same key.
\<close>

definition patch_item ::
    "store \<Rightarrow> int \<Rightarrow> update_item_request \<Rightarrow> error + http_status \<times> item \<times> store" where
  "patch_item s i request =
     (case assert_item_exists s i of
        Inl e \<Rightarrow> Inl e
      | Inr u \<Rightarrow>
          (case getitem (items_map s) i of
             Inl e \<Rightarrow> Inl e
           | Inr it \<Rightarrow>
               if item_deleted it then Inr (NOT_MODIFIED, it, s)
               else
                 (let it1 = (case upd_name request of
                               None \<Rightarrow> it | Some n \<Rightarrow> it\<lparr>item_name := n\<rparr>);
                      it2 = (case upd_price request of
                               None \<Rightarrow> it1 | Some p \<Rightarrow> it1\<lparr>item_price := p\<rparr>)
                  in Inr (OK, it2, s\<lparr>items_map := AList.update i it2 (items_map s)\<rparr>))))"

definition delete_item :: "store \<Rightarrow> int \<Rightarrow> error + store" where
  "delete_item s i =
     (case assert_item_exists s i of
        Inl e \<Rightarrow> Inl e
      | Inr u \<Rightarrow>
          (case getitem (items_map s) i of
             Inl e \<Rightarrow> Inl e
           | Inr it \<Rightarrow>
               Inr (s\<lparr>items_map := AList.update i (it\<lparr>item_deleted := True\<rparr>) (items_map s)\<rparr>)))"

section \<open>Sequences of requests\<close>

text \<open>
  The requests that write. A request that fails leaves the store unchanged; the four
  reading requests never change it.
\<close>

datatype request =
    CreateCart
  | CreateItem create_item_request
  | AddItemToCart int int
  | PutItem int create_item_request
  | PatchItem int update_item_request
  | DeleteItem int

fun step :: "store \<Rightarrow> request \<Rightarrow> store" where
  "step s CreateCart = snd (create_cart s)"
| "step s (CreateItem r) = snd (create_item s r)"
| "step s (AddItemToCart cid iid) =
     (case add_item_to_cart s cid iid of Inl e \<Rightarrow> s | Inr s' \<Rightarrow> s')"
| "step s (PutItem i r) = (case put_item s i r of Inl e \<Rightarrow> s | Inr (it, s') \<Rightarrow> s')"
| "step s (PatchItem i r) = (case patch_item s i r of Inl e \<Rightarrow> s | Inr (st, it, s') \<Rightarrow> s')"
| "step s (DeleteItem i) = (case delete_item s i of Inl e \<Rightarrow> s | Inr s' \<Rightarrow> s')"

definition run :: "request list \<Rightarrow> store" where
  "run rs = foldl step empty_store rs"

section \<open>The arithmetic of doubles\<close>

text \<open>
  An IEEE double is a finite value, an infinity or NaN; signed zeros are not told
  apart. \<open>round_double\<close> rounds a real to the nearest double, a tie to the one with the
  even significand: 53 bits above the smallest normal exponent -1022, steps of
  \<open>2 powi (-1074)\<close> below it, and an infinity from \<open>2 powi 1024\<close> on.
\<close>

datatype double = Finite real | PosInf | NegInf | NaN

definition round_half_even :: "real \<Rightarrow> int" where
  "round_half_even y =
     (if y - of_int \<lfloor>y\<rfloor> < 1 / 2 then \<lfloor>y\<rfloor>
      else if 1 / 2 < y - of_int \<lfloor>y\<rfloor> then \<lfloor>y\<rfloor> + 1
      else if even \<lfloor>y\<rfloor> then \<lfloor>y\<rfloor> else \<lfloor>y\<rfloor> + 1)"

definition ulp_exponent :: "real \<Rightarrow> int" where
  "ulp_exponent x = max \<lfloor>log 2 \<bar>x\<bar>\<rfloor> (- 1022) - 52"

definition round_double :: "real \<Rightarrow> double" where
  "round_double x =
     (if x = 0 then Finite 0
      else
        (let u = 2 powi ulp_exponent x;
             r = of_int (round_half_even (x / u)) * u
         in if 2 powi 1024 \<le> \<bar>r\<bar> then (if x < 0 then NegInf else PosInf) else Finite r))"

definition double_add :: "double \<Rightarrow> double \<Rightarrow> double" where
  "double_add a b =
     (case a of
        Finite x \<Rightarrow> (case b of Finite y \<Rightarrow> round_double (x + y) | PosInf \<Rightarrow> PosInf
                       | NegInf \<Rightarrow> NegInf | NaN \<Rightarrow> NaN)
      | PosInf \<Rightarrow> (case b of Finite y \<Rightarrow> PosInf | PosInf \<Rightarrow> PosInf | NegInf \<Rightarrow> NaN | NaN \<Rightarrow> NaN)
      | NegInf \<Rightarrow> (case b of Finite y \<Rightarrow> NegInf | PosInf \<Rightarrow> NaN | NegInf \<Rightarrow> NegInf | NaN \<Rightarrow> NaN)
      | NaN \<Rightarrow> NaN)"

text \<open>
  \<open>int * float\<close> converts the integer to a double and multiplies. A quantity is the
  count of a list, far below the integers that do not convert.
\<close>

definition double_mul :: "int \<Rightarrow> real \<Rightarrow> double" where
  "double_mul q p =
     (case round_double (of_int q) of Finite a \<Rightarrow> round_double (a * p) | d \<Rightarrow> d)"

definition double_ge :: "double \<Rightarrow> real \<Rightarrow> bool" where
  "double_ge a m =
     (case a of Finite x \<Rightarrow> m \<le> x | PosInf \<Rightarrow> True | NegInf \<Rightarrow> False | NaN \<Rightarrow> False)"

definition double_le :: "double \<Rightarrow> real \<Rightarrow> bool" where
  "double_le a m =
     (case a of Finite x \<Rightarrow> x \<le> m | PosInf \<Rightarrow> False | NegInf \<Rightarrow> True | NaN \<Rightarrow> False)"

definition double_arith :: "double arith" where
  "double_arith =
     \<lparr>fzero = Finite 0, fadd = double_add, fmul = double_mul, fge = double_ge, fle = double_le\<rparr>"

section \<open>What the claims are stated against\<close>

text \<open>
  The price the specification gives a cart view: the sum, over the lines that are
  available, of the quantity times the price the item has now; the sum is taken as the
  code takes it, from 0 and from left to right in the arithmetic of the handler.
\<close>

definition spec_cart_price :: "'f arith \<Rightarrow> item dict \<Rightarrow> cart_item list \<Rightarrow> 'f" where
  "spec_cart_price ops im lines =
     foldl (fadd ops) (fzero ops)
       (map (\<lambda>l. fmul ops (ci_quantity l)
                 (case map_of im (ci_id l) of None \<Rightarrow> 0 | Some it \<Rightarrow> item_price it))
            (filter ci_available lines))"

text \<open>
  What holds of every store the requests can build: the item ids are \<open>1, \<dots>, n\<close> in the
  order of creation, every record is stored under its own id, and every id in a cart
  is a key of the item catalog.
\<close>

definition store_ok :: "store \<Rightarrow> bool" where
  "store_ok s \<longleftrightarrow>
     map fst (items_map s) = [1..int (length (items_map s))] \<and>
     (\<forall>(k, it) \<in> set (items_map s). item_id it = k) \<and>
     distinct (map fst (cart_map s)) \<and>
     (\<forall>(k, c) \<in> set (cart_map s).
        cart_id c = k \<and> (\<forall>i \<in> set (cart_item_ids c). map_of (items_map s) i \<noteq> None))"

text \<open>
  The scenario of the specification: two items, then a cart (its id is 3, the number of
  items plus 1), filled with item 1 twice and item 2 once.
\<close>

definition scenario :: "request list" where
  "scenario =
     [CreateItem \<lparr>req_name = ''apple'', req_price = 10\<rparr>,
      CreateItem \<lparr>req_name = ''banana'', req_price = 5\<rparr>,
      CreateCart, AddItemToCart 3 1, AddItemToCart 3 1, AddItemToCart 3 2]"


text \<open>
  The requests that write the item stored under a given id, those that delete it and
  those that replace it.
\<close>

fun deletes_item :: "int \<Rightarrow> request \<Rightarrow> bool" where
  "deletes_item i (DeleteItem j) = (j = i)"
| "deletes_item i r = False"

fun replaces_item :: "int \<Rightarrow> request \<Rightarrow> bool" where
  "replaces_item i (PutItem j r) = (j = i)"
| "replaces_item i r = False"

fun writes_item :: "int \<Rightarrow> request \<Rightarrow> bool" where
  "writes_item i (PutItem j r) = (j = i)"
| "writes_item i (PatchItem j r) = (j = i)"
| "writes_item i (DeleteItem j) = (j = i)"
| "writes_item i r = False"

section \<open>Dictionaries, counters and cart views\<close>

lemma set_update_cases:
  "(k', v') \<in> set (AList.update k v al) \<Longrightarrow> (k', v') = (k, v) \<or> (k', v') \<in> set al"
  by (induction al) (auto split: if_splits)

lemma update_absent_append:
  "k \<notin> fst ` set al \<Longrightarrow> AList.update k v al = al @ [(k, v)]"
  by (induction al) auto





lemma remdups_drop_earlier:
  "x \<in> set zs \<Longrightarrow> remdups (ys @ x # zs) = remdups (ys @ zs)"
  by (induction ys) auto

lemma keys_count_elements:
  "distinct (map fst c) \<Longrightarrow>
   map fst (count_elements c xs) = rev (remdups (rev (map fst c @ xs)))"
proof (induction xs arbitrary: c)
  case Nil
  then show ?case by (simp add: distinct_remdups_id)
next
  case (Cons x xs)
  let ?c = "AList.update x ((case map_of c x of None \<Rightarrow> 0 | Some n \<Rightarrow> n) + 1) c"
  have d: "distinct (map fst ?c)" using Cons.prems by (rule distinct_update)
  have "map fst (count_elements c (x # xs)) = rev (remdups (rev (map fst ?c @ xs)))"
    using Cons.IH [OF d] by simp
  also have "\<dots> = rev (remdups (rev (map fst c @ x # xs)))"
  proof (cases "x \<in> set (map fst c)")
    case True
    then have "remdups (rev xs @ x # rev (map fst c)) = remdups (rev xs @ rev (map fst c))"
      by (intro remdups_drop_earlier) simp
    with True show ?thesis by (simp add: update_keys)
  next
    case False
    then show ?thesis by (simp add: update_keys)
  qed
  finally show ?case .
qed

lemma keys_Counter: "map fst (Counter xs) = rev (remdups (rev xs))"
  by (simp add: Counter_def keys_count_elements)

lemma keys_upto_present:
  assumes "map fst im = [1..int (length im)]"
  shows "map_of im i \<noteq> None \<longleftrightarrow> 1 \<le> i \<and> i \<le> int (length im)"
proof -
  have "map_of im i \<noteq> None \<longleftrightarrow> i \<in> set (map fst im)"
    by (simp add: map_of_eq_None_iff)
  also have "\<dots> \<longleftrightarrow> 1 \<le> i \<and> i \<le> int (length im)"
    by (simp only: assms set_upto atLeastAtMost_iff)
  finally show ?thesis .
qed

lemma keys_upto_append:
  assumes "map fst im = [1..int (length im)]"
  shows "AList.update (int (length im) + 1) v im = im @ [(int (length im) + 1, v)]"
proof -
  have "map_of im (int (length im) + 1) = None"
    using keys_upto_present [OF assms, of "int (length im) + 1"] by simp
  then have "int (length im) + 1 \<notin> fst ` set im"
    by (simp add: map_of_eq_None_iff)
  then show ?thesis by (rule update_absent_append)
qed

lemma length_update_present:
  "map_of al k \<noteq> None \<Longrightarrow> length (AList.update k v al) = length al"
  by (induction al) auto

lemma keys_update_present:
  "map_of al k \<noteq> None \<Longrightarrow> map fst (AList.update k v al) = map fst al"
  by (simp add: update_keys map_of_eq_None_iff)

lemma store_ok_empty: "store_ok empty_store"
  by (simp add: store_ok_def empty_store_def)

lemma store_ok_create_cart: "store_ok s \<Longrightarrow> store_ok (snd (create_cart s))"
  unfolding store_ok_def create_cart_def Let_def
  by (auto simp: distinct_update dest!: set_update_cases)

lemma store_ok_create_item:
  assumes "store_ok s"
  shows "store_ok (snd (create_item s r))"
proof -
  let ?n = "int (length (items_map s))"
  let ?it = "build_item (?n + 1) r"
  have keys: "map fst (items_map s) = [1..?n]" using assms by (simp add: store_ok_def)
  have app: "AList.update (?n + 1) ?it (items_map s) = items_map s @ [(?n + 1, ?it)]"
    using keys by (rule keys_upto_append)
  have up: "[1..?n + 1] = [1..?n] @ [?n + 1]"
    using upto_rec2 [of 1 "?n + 1"] by simp
  then have up': "[1..1 + ?n] = [1..?n] @ [?n + 1]"
    by (simp add: add.commute)
  have items': "items_map (snd (create_item s r)) = items_map s @ [(?n + 1, ?it)]"
    by (simp add: create_item_def Let_def app)
  have carts': "cart_map (snd (create_item s r)) = cart_map s"
    by (simp add: create_item_def Let_def)
  have "item_id ?it = ?n + 1" by (simp add: build_item_def)
  then show ?thesis
    using assms unfolding store_ok_def items' carts'
    by (auto simp: up' keys)
qed

lemma store_ok_update_item:
  assumes "store_ok s" and "map_of (items_map s) i \<noteq> None" and "item_id it = i"
  shows "store_ok (s\<lparr>items_map := AList.update i it (items_map s)\<rparr>)"
  using assms unfolding store_ok_def
  by (auto simp: keys_update_present length_update_present update_conv'
           dest!: set_update_cases)

lemma store_ok_update_cart:
  assumes "store_ok s" and "cart_id c = k"
    and "\<forall>i \<in> set (cart_item_ids c). map_of (items_map s) i \<noteq> None"
  shows "store_ok (s\<lparr>cart_map := AList.update k c (cart_map s)\<rparr>)"
  using assms unfolding store_ok_def
  by (auto simp: distinct_update dest!: set_update_cases)

lemma patch_item_Inr:
  assumes "patch_item s i q = Inr (st, it', s')"
  shows "\<exists>it. map_of (items_map s) i = Some it \<and> item_id it' = item_id it \<and>
           (s' = s \<or> s' = s\<lparr>items_map := AList.update i it' (items_map s)\<rparr>)"
proof -
  from assms obtain it where it: "map_of (items_map s) i = Some it"
    by (auto simp: patch_item_def assert_item_exists_def getitem_def
          split: if_splits option.splits)
  show ?thesis
  proof (cases "item_deleted it")
    case True
    with assms it show ?thesis
      by (simp add: patch_item_def assert_item_exists_def getitem_def)
  next
    case False
    with assms it show ?thesis
      by (cases "upd_name q"; cases "upd_price q")
         (auto simp: patch_item_def assert_item_exists_def getitem_def Let_def)
  qed
qed

lemma store_ok_step: "store_ok s \<Longrightarrow> store_ok (step s r)"
proof (cases r)
  case CreateCart
  assume "store_ok s"
  then show ?thesis using CreateCart by (simp add: store_ok_create_cart)
next
  case (CreateItem q)
  assume "store_ok s"
  then show ?thesis using CreateItem by (simp add: store_ok_create_item)
next
  case (AddItemToCart cid iid)
  assume ok: "store_ok s"
  show ?thesis
  proof (cases "add_item_to_cart s cid iid")
    case (Inl e)
    then show ?thesis using ok AddItemToCart by simp
  next
    case (Inr s')
    then obtain c where c: "map_of (cart_map s) cid = Some c"
      and i: "map_of (items_map s) iid \<noteq> None"
      and s': "s' = s\<lparr>cart_map := AList.update cid (c\<lparr>cart_item_ids := cart_item_ids c @ [iid]\<rparr>) (cart_map s)\<rparr>"
      by (auto simp: add_item_to_cart_def assert_cart_exists_def assert_item_exists_def
            getitem_def split: if_splits option.splits)
    from c have "(cid, c) \<in> set (cart_map s)" by (rule map_of_SomeD)
    with ok have "cart_id c = cid"
      and "\<forall>j \<in> set (cart_item_ids c). map_of (items_map s) j \<noteq> None"
      by (auto simp: store_ok_def)
    with i have "store_ok s'" unfolding s'
      by (intro store_ok_update_cart [OF ok]) auto
    then show ?thesis using Inr AddItemToCart by simp
  qed
next
  case (PutItem i q)
  assume ok: "store_ok s"
  show ?thesis
  proof (cases "put_item s i q")
    case (Inl e)
    then show ?thesis using ok PutItem by simp
  next
    case (Inr p)
    then have "map_of (items_map s) i \<noteq> None"
      and "snd p = s\<lparr>items_map := AList.update i (build_item i q) (items_map s)\<rparr>"
      by (auto simp: put_item_def assert_item_exists_def Let_def split: if_splits)
    then have "store_ok (snd p)"
      using store_ok_update_item [OF ok, of i "build_item i q"] by (simp add: build_item_def)
    then show ?thesis using Inr PutItem by (simp add: case_prod_beta)
  qed
next
  case (PatchItem i q)
  assume ok: "store_ok s"
  show ?thesis
  proof (cases "patch_item s i q")
    case (Inl e)
    then show ?thesis using ok PatchItem by simp
  next
    case (Inr p)
    obtain st it' s' where p: "p = (st, it', s')" by (cases p) auto
    from Inr p obtain it where it: "map_of (items_map s) i = Some it"
      and shape: "item_id it' = item_id it"
        "s' = s \<or> s' = s\<lparr>items_map := AList.update i it' (items_map s)\<rparr>"
      by (auto dest: patch_item_Inr)
    from it have "(i, it) \<in> set (items_map s)" by (rule map_of_SomeD)
    with ok have "item_id it = i" by (auto simp: store_ok_def)
    with shape have "store_ok s'"
      using store_ok_update_item [OF ok, of i it'] it ok by auto
    then show ?thesis using Inr PatchItem p by simp
  qed
next
  case (DeleteItem i)
  assume ok: "store_ok s"
  show ?thesis
  proof (cases "delete_item s i")
    case (Inl e)
    then show ?thesis using ok DeleteItem by simp
  next
    case (Inr s')
    then obtain it where it: "map_of (items_map s) i = Some it"
      and s': "s' = s\<lparr>items_map := AList.update i (it\<lparr>item_deleted := True\<rparr>) (items_map s)\<rparr>"
      by (auto simp: delete_item_def assert_item_exists_def getitem_def split: if_splits option.splits)
    from it have "(i, it) \<in> set (items_map s)" by (rule map_of_SomeD)
    with ok have id: "item_id it = i" by (auto simp: store_ok_def)
    have "store_ok s'" unfolding s'
      using store_ok_update_item [OF ok, of i "it\<lparr>item_deleted := True\<rparr>"] it id by simp
    then show ?thesis using Inr DeleteItem by simp
  qed
qed

lemma store_ok_foldl: "store_ok s \<Longrightarrow> store_ok (foldl step s rs)"
  by (induction rs arbitrary: s) (simp_all add: store_ok_step)

lemma store_ok_run: "store_ok (run rs)"
  by (simp add: run_def store_ok_foldl store_ok_empty)

lemma build_cart_item_Inr:
  "build_cart_item im k n = Inr l \<Longrightarrow>
     ci_id l = k \<and> ci_quantity l = n \<and>
     (\<exists>it. map_of im k = Some it \<and> ci_name l = item_name it \<and>
           ci_available l = (\<not> item_deleted it))"
  by (auto simp: build_cart_item_def split: option.splits)

lemma build_cart_items_Inr:
  "build_cart_items im cs = Inr lines \<Longrightarrow>
     map ci_id lines = map fst cs \<and> map ci_quantity lines = map snd cs \<and>
     (\<forall>l \<in> set lines. (ci_id l, ci_quantity l) \<in> set cs \<and>
        (\<exists>it. map_of im (ci_id l) = Some it \<and> ci_name l = item_name it \<and>
              ci_available l = (\<not> item_deleted it)))"
proof (induction cs arbitrary: lines)
  case Nil
  then show ?case by simp
next
  case (Cons e cs)
  obtain k n where e: "e = (k, n)" by (cases e) auto
  from Cons.prems e obtain l rest where l: "build_cart_item im k n = Inr l"
    and rest: "build_cart_items im cs = Inr rest" and lines: "lines = l # rest"
    by (auto split: sum.splits)
  from Cons.IH [OF rest] build_cart_item_Inr [OF l] show ?case
    unfolding lines e by auto
qed

lemma build_cart_items_total:
  "\<forall>k \<in> fst ` set cs. map_of im k \<noteq> None \<Longrightarrow> \<exists>lines. build_cart_items im cs = Inr lines"
  by (induction cs) (auto simp: build_cart_item_def split: option.splits)

lemma build_cart_items_Inl:
  "build_cart_items im cs = Inl e \<Longrightarrow>
     e = AttributeError \<and> (\<exists>k \<in> fst ` set cs. map_of im k = None)"
  by (induction cs) (auto simp: build_cart_item_def split: option.splits sum.splits)

lemma sum_prices_foldl:
  "\<forall>l \<in> set lines. ci_available l \<longrightarrow> map_of im (ci_id l) \<noteq> None \<Longrightarrow>
     sum_prices ops im acc lines =
       Inr (foldl (fadd ops) acc
              (map (\<lambda>l. fmul ops (ci_quantity l)
                        (case map_of im (ci_id l) of None \<Rightarrow> 0 | Some it \<Rightarrow> item_price it))
                   (filter ci_available lines)))"
  by (induction lines arbitrary: acc) (auto simp: getitem_def split: option.splits)

lemma sum_prices_spec:
  "\<forall>l \<in> set lines. ci_available l \<longrightarrow> map_of im (ci_id l) \<noteq> None \<Longrightarrow>
     sum_prices ops im (fzero ops) lines = Inr (spec_cart_price ops im lines)"
  by (simp add: sum_prices_foldl spec_cart_price_def)


lemma keys_Counter_set: "fst ` set (Counter xs) = set xs"
proof -
  have "fst ` set (Counter xs) = set (map fst (Counter xs))" by simp
  also have "\<dots> = set xs" by (simp only: keys_Counter set_rev set_remdups)
  finally show ?thesis .
qed

lemma build_cart_response_total:
  assumes "\<forall>i \<in> set (cart_item_ids c). map_of im i \<noteq> None"
  shows "\<exists>v. build_cart_response ops im c = Inr v"
proof -
  from assms have "\<forall>k \<in> fst ` set (Counter (cart_item_ids c)). map_of im k \<noteq> None"
    by (simp only: keys_Counter_set)
  then obtain lines where
    lines: "build_cart_items im (Counter (cart_item_ids c)) = Inr lines"
    using build_cart_items_total by blast
  from build_cart_items_Inr [OF lines]
  have "\<forall>l \<in> set lines. ci_available l \<longrightarrow> map_of im (ci_id l) \<noteq> None" by auto
  from sum_prices_spec [OF this, of ops] lines show ?thesis
    by (simp add: build_cart_response_def)
qed

lemma build_cart_response_Inl:
  assumes "build_cart_response ops im c = Inl e"
  shows "e = AttributeError \<and> (\<exists>i \<in> set (cart_item_ids c). map_of im i = None)"
proof (cases "build_cart_items im (Counter (cart_item_ids c))")
  case (Inl e')
  with assms have "e' = e" by (simp add: build_cart_response_def)
  with build_cart_items_Inl [OF Inl] show ?thesis
    by (simp only: keys_Counter_set) 
next
  case (Inr lines)
  from build_cart_items_Inr [OF Inr]
  have "\<forall>l \<in> set lines. ci_available l \<longrightarrow> map_of im (ci_id l) \<noteq> None" by auto
  from sum_prices_spec [OF this, of ops] Inr assms show ?thesis
    by (simp add: build_cart_response_def)
qed

section \<open>Identifier assignment\<close>

text \<open>
  C5. \<open>create_cart\<close> gives the new cart the number of items in the item catalog plus 1,
  and \<open>create_item\<close> gives the new item the number of items plus 1; each stores its
  record under that id, and neither reads anything but the size of \<open>items_map\<close>.
\<close>

theorem create_ids_count_items:
  "fst (create_cart s) = int (length (items_map s)) + 1 \<and>
   map_of (cart_map (snd (create_cart s))) (int (length (items_map s)) + 1)
     = Some \<lparr>cart_id = int (length (items_map s)) + 1, cart_item_ids = []\<rparr> \<and>
   item_id (fst (create_item s r)) = int (length (items_map s)) + 1 \<and>
   map_of (items_map (snd (create_item s r))) (int (length (items_map s)) + 1)
     = Some (fst (create_item s r)) \<and>
   items_map (snd (create_cart s)) = items_map s \<and>
   cart_map (snd (create_item s r)) = cart_map s"
  by (simp add: create_cart_def create_item_def build_item_def Let_def update_Some_unfold)

section \<open>The item catalog only grows\<close>

lemma items_step_shape:
  "items_map (step s r) = items_map s \<or>
   (\<exists>k v. items_map (step s r) = AList.update k v (items_map s))"
proof (cases r)
  case CreateCart
  then show ?thesis by (simp add: create_cart_def Let_def)
next
  case (CreateItem q)
  then show ?thesis by (auto simp: create_item_def Let_def)
next
  case (AddItemToCart cid iid)
  then show ?thesis
    by (auto simp: add_item_to_cart_def assert_cart_exists_def assert_item_exists_def
          getitem_def split: option.splits sum.splits)
next
  case (PutItem i q)
  then show ?thesis
    by (auto simp: put_item_def assert_item_exists_def Let_def split: sum.splits)
next
  case (PatchItem i q)
  show ?thesis
  proof (cases "patch_item s i q")
    case (Inl e)
    with PatchItem show ?thesis by simp
  next
    case (Inr p)
    obtain st it' s' where p: "p = (st, it', s')" by (cases p) auto
    from patch_item_Inr [of s i q st it' s'] Inr p
    have "s' = s \<or> s' = s\<lparr>items_map := AList.update i it' (items_map s)\<rparr>" by blast
    moreover have "step s r = s'" using Inr p PatchItem by simp
    ultimately show ?thesis by (metis store.select_convs(1) store.surjective store.update_convs(1))
  qed
next
  case (DeleteItem i)
  then show ?thesis
    by (auto simp: delete_item_def assert_item_exists_def getitem_def
          split: option.splits sum.splits)
qed

lemma add_item_to_cart_Inr:
  "add_item_to_cart s cid iid = Inr s' \<Longrightarrow>
     \<exists>c. map_of (cart_map s) cid = Some c \<and> map_of (items_map s) iid \<noteq> None \<and>
         s' = s\<lparr>cart_map :=
                  AList.update cid (c\<lparr>cart_item_ids := cart_item_ids c @ [iid]\<rparr>) (cart_map s)\<rparr>"
  by (auto simp: add_item_to_cart_def assert_cart_exists_def assert_item_exists_def
        getitem_def split: if_splits option.splits)

lemma keys_step_mono: "fst ` set (items_map s) \<subseteq> fst ` set (items_map (step s r))"
proof -
  from items_step_shape [of s r] show ?thesis
  proof
    assume "items_map (step s r) = items_map s"
    then show ?thesis by simp
  next
    assume "\<exists>k v. items_map (step s r) = AList.update k v (items_map s)"
    then obtain k v where "items_map (step s r) = AList.update k v (items_map s)" by blast
    then have "fst ` set (items_map (step s r)) = {k} \<union> fst ` set (items_map s)"
      by (simp only: dom_update)
    then show ?thesis by blast
  qed
qed

lemma add_item_to_cart_key:
  assumes "add_item_to_cart s cid iid = Inr s'"
  shows "iid \<in> fst ` set (items_map s)"
proof -
  from add_item_to_cart_Inr [OF assms] have "map_of (items_map s) iid \<noteq> None" by blast
  then show ?thesis by (simp only: map_of_eq_None_iff not_not)
qed

section \<open>Cart references\<close>

text \<open>
  C10. In every store that a sequence of requests builds from the empty store, every id
  in a cart's \<open>item_ids\<close> is a key of the item catalog, and it still is after any further
  request: no request removes a key. \<open>add_item_to_cart\<close> succeeds only for an id that is
  a key at the time of the call. So building the view of a stored cart never meets a
  missing item.
\<close>

theorem cart_ids_are_catalog_keys:
  assumes "(k, c) \<in> set (cart_map (run rs))" and "i \<in> set (cart_item_ids c)"
  shows "i \<in> fst ` set (items_map (run rs)) \<and>
         fst ` set (items_map (run rs)) \<subseteq> fst ` set (items_map (step (run rs) r)) \<and>
         i \<in> fst ` set (items_map (step (run rs) r)) \<and>
         (\<forall>cid iid s'. add_item_to_cart (run rs) cid iid = Inr s' \<longrightarrow>
            iid \<in> fst ` set (items_map (run rs))) \<and>
         build_cart_response ops (items_map (run rs)) c \<noteq> Inl AttributeError"
proof -
  have ok: "store_ok (run rs)" by (rule store_ok_run)
  with assms(1) have all: "\<forall>j \<in> set (cart_item_ids c). map_of (items_map (run rs)) j \<noteq> None"
    by (auto simp: store_ok_def)
  with assms(2) have 1: "i \<in> fst ` set (items_map (run rs))"
    by (simp add: map_of_eq_None_iff)
  with keys_step_mono have 2: "i \<in> fst ` set (items_map (step (run rs) r))" by blast
  have 3: "\<forall>cid iid s'. add_item_to_cart (run rs) cid iid = Inr s' \<longrightarrow>
            iid \<in> fst ` set (items_map (run rs))"
    by (blast dest: add_item_to_cart_key)
  from build_cart_response_total [OF all, of ops]
  have 4: "build_cart_response ops (items_map (run rs)) c \<noteq> Inl AttributeError" by auto
  from 1 2 3 4 keys_step_mono [of "run rs" r] show ?thesis by blast
qed

text \<open>A cart that refers to an item deleted after it was added: the id is still a key.\<close>

theorem cart_ids_are_catalog_keys_witness:
  "(2, \<lparr>cart_id = 2, cart_item_ids = [1]\<rparr>)
     \<in> set (cart_map (run [CreateItem \<lparr>req_name = ''apple'', req_price = 10\<rparr>, CreateCart,
                            AddItemToCart 2 1, DeleteItem 1])) \<and>
   (1::int) \<in> set (cart_item_ids \<lparr>cart_id = 2, cart_item_ids = [1]\<rparr>) \<and>
   1 \<in> fst ` set (items_map (run [CreateItem \<lparr>req_name = ''apple'', req_price = 10\<rparr>,
                            CreateCart, AddItemToCart 2 1, DeleteItem 1]))"
proof -
  let ?rs = "[CreateItem \<lparr>req_name = ''apple'', req_price = 10\<rparr>, CreateCart,
              AddItemToCart 2 1, DeleteItem 1]"
  let ?c = "\<lparr>cart_id = 2, cart_item_ids = [1]\<rparr>"
  have a: "(2, ?c) \<in> set (cart_map (run ?rs))"
    by (simp add: run_def empty_store_def create_item_def create_cart_def build_item_def
          add_item_to_cart_def assert_cart_exists_def assert_item_exists_def getitem_def
          delete_item_def Let_def)
  have b: "(1::int) \<in> set (cart_item_ids ?c)" by simp
  from cart_ids_are_catalog_keys [OF a b] a b show ?thesis by blast
qed

section \<open>Cart views of stored carts\<close>









section \<open>The two cases of a partial update\<close>

lemma patch_item_deleted:
  assumes "map_of (items_map s) i = Some it" and "item_deleted it"
  shows "patch_item s i q = Inr (NOT_MODIFIED, it, s)"
  using assms by (simp add: patch_item_def assert_item_exists_def getitem_def)

lemma patch_item_live:
  assumes "map_of (items_map s) i = Some it" and "\<not> item_deleted it"
  shows "patch_item s i q =
           Inr (OK,
                it\<lparr>item_name := (case upd_name q of None \<Rightarrow> item_name it | Some n \<Rightarrow> n),
                   item_price := (case upd_price q of None \<Rightarrow> item_price it | Some p \<Rightarrow> p)\<rparr>,
                s\<lparr>items_map :=
                    AList.update i
                      (it\<lparr>item_name := (case upd_name q of None \<Rightarrow> item_name it | Some n \<Rightarrow> n),
                          item_price := (case upd_price q of None \<Rightarrow> item_price it | Some p \<Rightarrow> p)\<rparr>)
                      (items_map s)\<rparr>)"
  using assms
  by (cases "upd_name q"; cases "upd_price q")
     (simp_all add: patch_item_def assert_item_exists_def getitem_def Let_def)

section \<open>Rounding to doubles\<close>











section \<open>The price of a cart view\<close>



lemma run_scenario:
  "run scenario =
     \<lparr>items_map =
        [(1, \<lparr>item_id = 1, item_name = ''apple'', item_price = 10, item_deleted = False\<rparr>),
         (2, \<lparr>item_id = 2, item_name = ''banana'', item_price = 5, item_deleted = False\<rparr>)],
      cart_map = [(3, \<lparr>cart_id = 3, cart_item_ids = [1, 1, 2]\<rparr>)]\<rparr>"
  by (simp add: scenario_def run_def empty_store_def create_item_def create_cart_def
        build_item_def add_item_to_cart_def assert_cart_exists_def assert_item_exists_def
        getitem_def Let_def)





section \<open>Partial update of an item\<close>

text \<open>
  C4. For a stored item: when it is deleted, \<open>patch_item\<close> leaves the store as it is,
  sets the status \<open>NOT_MODIFIED\<close> and returns the stored item; when it is not deleted,
  \<open>patch_item\<close> answers with the default status, returns the item with the name and the
  price of the payload where they are given and the old ones where they are not, its id
  and its deleted flag unchanged, and stores that item under the same key; every other
  key, the order of the keys and the carts stay as they were.
\<close>

theorem patch_item_updates_given_fields:
  assumes "map_of (items_map s) i = Some it"
  shows "(item_deleted it \<longrightarrow> patch_item s i q = Inr (NOT_MODIFIED, it, s)) \<and>
         (\<not> item_deleted it \<longrightarrow>
            (\<exists>it' s'. patch_item s i q = Inr (OK, it', s') \<and>
               item_name it' = (case upd_name q of None \<Rightarrow> item_name it | Some n \<Rightarrow> n) \<and>
               item_price it' = (case upd_price q of None \<Rightarrow> item_price it | Some p \<Rightarrow> p) \<and>
               item_id it' = item_id it \<and> item_deleted it' = item_deleted it \<and>
               map_of (items_map s') = (map_of (items_map s))(i \<mapsto> it') \<and>
               map fst (items_map s') = map fst (items_map s) \<and>
               cart_map s' = cart_map s))"
proof (cases "item_deleted it")
  case True
  with patch_item_deleted [OF assms True, of q] show ?thesis by simp
next
  case False
  from assms have "map_of (items_map s) i \<noteq> None" by simp
  then have "map fst (AList.update i v (items_map s)) = map fst (items_map s)" for v
    by (rule keys_update_present)
  with False patch_item_live [OF assms False, of q] show ?thesis
    by (simp add: update_conv')
qed

text \<open>Item 2 of the scenario, patched with a price only, before and after it is deleted.\<close>

theorem patch_item_updates_given_fields_witness:
  "map_of (items_map (run scenario)) 2
     = Some \<lparr>item_id = 2, item_name = ''banana'', item_price = 5, item_deleted = False\<rparr> \<and>
   (\<exists>it' s'. patch_item (run scenario) 2 \<lparr>upd_name = None, upd_price = Some 7\<rparr> = Inr (OK, it', s') \<and>
      item_name it' = ''banana'' \<and> item_price it' = 7) \<and>
   map_of (items_map (step (run scenario) (DeleteItem 2))) 2
     = Some \<lparr>item_id = 2, item_name = ''banana'', item_price = 5, item_deleted = True\<rparr> \<and>
   patch_item (step (run scenario) (DeleteItem 2)) 2 \<lparr>upd_name = None, upd_price = Some 7\<rparr>
     = Inr (NOT_MODIFIED,
            \<lparr>item_id = 2, item_name = ''banana'', item_price = 5, item_deleted = True\<rparr>,
            step (run scenario) (DeleteItem 2))"
proof -
  let ?q = "\<lparr>upd_name = None, upd_price = Some 7\<rparr>"
  let ?live = "\<lparr>item_id = 2, item_name = ''banana'', item_price = 5, item_deleted = False\<rparr>"
  let ?dead = "\<lparr>item_id = 2, item_name = ''banana'', item_price = 5, item_deleted = True\<rparr>"
  have a: "map_of (items_map (run scenario)) 2 = Some ?live" by (simp add: run_scenario)
  have b: "map_of (items_map (step (run scenario) (DeleteItem 2))) 2 = Some ?dead"
    by (simp add: run_scenario delete_item_def assert_item_exists_def getitem_def)
  from patch_item_updates_given_fields [OF a, of ?q]
  have c: "\<exists>it' s'. patch_item (run scenario) 2 ?q = Inr (OK, it', s') \<and>
      item_name it' = ''banana'' \<and> item_price it' = 7" by auto
  from patch_item_updates_given_fields [OF b, of ?q]
  have d: "patch_item (step (run scenario) (DeleteItem 2)) 2 ?q
     = Inr (NOT_MODIFIED, ?dead, step (run scenario) (DeleteItem 2))" by simp
  from a b c d show ?thesis by blast
qed

section \<open>Replace\<close>

text \<open>
  C7. For a stored item id, deleted or not, \<open>put_item\<close> succeeds: it returns and stores
  under that id the item with the given name and price and \<open>deleted = False\<close>, so a
  following \<open>get_item\<close> returns it. For an id that is not stored it fails with
  \<open>NOT_FOUND\<close> and in no other case does it fail.
\<close>

theorem put_item_resurrects:
  "(map_of (items_map s) i \<noteq> None \<longrightarrow>
      (\<exists>s'. put_item s i r
               = Inr (\<lparr>item_id = i, item_name = req_name r, item_price = req_price r,
                       item_deleted = False\<rparr>, s') \<and>
            map_of (items_map s') i
               = Some \<lparr>item_id = i, item_name = req_name r, item_price = req_price r,
                       item_deleted = False\<rparr> \<and>
            get_item s' i
               = Inr \<lparr>item_id = i, item_name = req_name r, item_price = req_price r,
                      item_deleted = False\<rparr>)) \<and>
   (map_of (items_map s) i = None \<longrightarrow>
      put_item s i r = Inl (HTTPException_NOT_FOUND (Item_not_found i))) \<and>
   ((\<exists>e. put_item s i r = Inl e) \<longleftrightarrow> map_of (items_map s) i = None)"
  by (auto simp: put_item_def assert_item_exists_def build_item_def get_item_def getitem_def
        Let_def update_conv')

text \<open>Item 2 of the scenario, deleted and then replaced; and the unknown id 9.\<close>

theorem put_item_resurrects_witness:
  "map_of (items_map (step (run scenario) (DeleteItem 2))) 2
     = Some \<lparr>item_id = 2, item_name = ''banana'', item_price = 5, item_deleted = True\<rparr> \<and>
   (\<exists>s'. put_item (step (run scenario) (DeleteItem 2)) 2 \<lparr>req_name = ''pear'', req_price = 3\<rparr>
            = Inr (\<lparr>item_id = 2, item_name = ''pear'', item_price = 3, item_deleted = False\<rparr>, s') \<and>
          get_item s' 2
            = Inr \<lparr>item_id = 2, item_name = ''pear'', item_price = 3, item_deleted = False\<rparr>) \<and>
   map_of (items_map (run scenario)) 9 = None \<and>
   put_item (run scenario) 9 \<lparr>req_name = ''pear'', req_price = 3\<rparr>
     = Inl (HTTPException_NOT_FOUND (Item_not_found 9))"
proof -
  let ?r = "\<lparr>req_name = ''pear'', req_price = 3\<rparr>"
  let ?d = "step (run scenario) (DeleteItem 2)"
  have a: "map_of (items_map ?d) 2
     = Some \<lparr>item_id = 2, item_name = ''banana'', item_price = 5, item_deleted = True\<rparr>"
    by (simp add: run_scenario delete_item_def assert_item_exists_def getitem_def)
  have b: "map_of (items_map (run scenario)) 9 = None" by (simp add: run_scenario)
  from a have a': "map_of (items_map ?d) 2 \<noteq> None" by simp
  from put_item_resurrects [of ?d 2 ?r] a'
  have c: "\<exists>s'. put_item ?d 2 ?r
            = Inr (\<lparr>item_id = 2, item_name = ''pear'', item_price = 3, item_deleted = False\<rparr>, s') \<and>
          get_item s' 2
            = Inr \<lparr>item_id = 2, item_name = ''pear'', item_price = 3, item_deleted = False\<rparr>"
    by auto
  from put_item_resurrects [of "run scenario" 9 ?r] b
  have d: "put_item (run scenario) 9 ?r = Inl (HTTPException_NOT_FOUND (Item_not_found 9))"
    by blast
  from a b c d show ?thesis by blast
qed

section \<open>Fetching an item\<close>

lemma get_item_cases:
  "get_item s i =
     (case map_of (items_map s) i of
        None \<Rightarrow> Inl (HTTPException_NOT_FOUND (Item_not_found i))
      | Some it \<Rightarrow>
          if item_deleted it then Inl (HTTPException_NOT_FOUND (Item_was_deleted i))
          else Inr it)"
  by (simp add: get_item_def assert_item_exists_def getitem_def split: option.splits)

lemma delete_item_stored:
  "map_of (items_map s) i = Some it \<Longrightarrow>
     delete_item s i = Inr (s\<lparr>items_map := AList.update i (it\<lparr>item_deleted := True\<rparr>) (items_map s)\<rparr>)"
  by (simp add: delete_item_def assert_item_exists_def getitem_def)

lemma step_keeps_item:
  assumes ok: "store_ok s" and it: "map_of (items_map s) i = Some it"
    and nw: "\<not> writes_item i r"
  shows "map_of (items_map (step s r)) i = Some it"
proof (cases r)
  case CreateCart
  with it show ?thesis by (simp add: create_cart_def Let_def)
next
  case (CreateItem q)
  from ok have keys: "map fst (items_map s) = [1..int (length (items_map s))]"
    by (simp add: store_ok_def)
  from it have "map_of (items_map s) i \<noteq> None" by simp
  with keys_upto_present [OF keys, of i] have "i \<noteq> int (length (items_map s)) + 1" by simp
  with it CreateItem show ?thesis by (simp add: create_item_def Let_def update_conv')
next
  case (AddItemToCart cid iid)
  with it show ?thesis
    by (cases "add_item_to_cart s cid iid") (auto dest: add_item_to_cart_Inr)
next
  case (PutItem j q)
  with nw have "j \<noteq> i" by simp
  with it PutItem show ?thesis
    by (auto simp: put_item_def assert_item_exists_def Let_def update_conv' split: sum.splits)
next
  case (PatchItem j q)
  with nw have ji: "j \<noteq> i" by simp
  show ?thesis
  proof (cases "patch_item s j q")
    case (Inl e)
    with PatchItem it show ?thesis by simp
  next
    case (Inr p)
    obtain st it' s' where p: "p = (st, it', s')" by (cases p) auto
    from patch_item_Inr [of s j q st it' s'] Inr p
    have "s' = s \<or> s' = s\<lparr>items_map := AList.update j it' (items_map s)\<rparr>" by blast
    with ji it have "map_of (items_map s') i = Some it" by (auto simp: update_conv')
    with Inr p PatchItem show ?thesis by simp
  qed
next
  case (DeleteItem j)
  with nw have "j \<noteq> i" by simp
  with it DeleteItem show ?thesis
    by (auto simp: delete_item_def assert_item_exists_def getitem_def update_conv'
          split: sum.splits option.splits)
qed

lemma foldl_step_keeps_item:
  "store_ok s \<Longrightarrow> map_of (items_map s) i = Some it \<Longrightarrow> \<forall>r \<in> set rs. \<not> writes_item i r \<Longrightarrow>
     map_of (items_map (foldl step s rs)) i = Some it"
  by (induction rs arbitrary: s) (simp_all add: step_keeps_item store_ok_step)

lemma step_keeps_live:
  assumes ok: "store_ok s" and it: "map_of (items_map s) i = Some it"
    and live: "\<not> item_deleted it" and nd: "\<not> deletes_item i r"
  shows "\<exists>it'. map_of (items_map (step s r)) i = Some it' \<and> \<not> item_deleted it'"
proof (cases "writes_item i r")
  case False
  from step_keeps_item [OF ok it False] live show ?thesis by blast
next
  case True
  with nd consider q where "r = PutItem i q" | q where "r = PatchItem i q"
    by (cases r) auto
  then show ?thesis
  proof cases
    case 1
    with it show ?thesis
      by (simp add: put_item_def assert_item_exists_def Let_def update_conv' build_item_def)
  next
    case 2
    with patch_item_live [OF it live, of q] live show ?thesis by (simp add: update_conv')
  qed
qed

lemma step_keeps_deleted:
  assumes ok: "store_ok s" and it: "map_of (items_map s) i = Some it"
    and dead: "item_deleted it" and nr: "\<not> replaces_item i r"
  shows "\<exists>it'. map_of (items_map (step s r)) i = Some it' \<and> item_deleted it'"
proof (cases "writes_item i r")
  case False
  from step_keeps_item [OF ok it False] dead show ?thesis by blast
next
  case True
  with nr consider q where "r = PatchItem i q" | "r = DeleteItem i"
    by (cases r) auto
  then show ?thesis
  proof cases
    case 1
    with patch_item_deleted [OF it dead, of q] it dead show ?thesis by simp
  next
    case 2
    with delete_item_stored [OF it] show ?thesis by (simp add: update_conv')
  qed
qed

lemma foldl_step_keeps_live:
  "store_ok s \<Longrightarrow> map_of (items_map s) i = Some it \<Longrightarrow> \<not> item_deleted it \<Longrightarrow>
     \<forall>r \<in> set rs. \<not> deletes_item i r \<Longrightarrow>
     \<exists>it'. map_of (items_map (foldl step s rs)) i = Some it' \<and> \<not> item_deleted it'"
proof (induction rs arbitrary: s it)
  case Nil
  then show ?case by simp
next
  case (Cons r rs)
  from step_keeps_live [OF Cons.prems(1,2,3), of r] Cons.prems(4) obtain it'
    where "map_of (items_map (step s r)) i = Some it'" and "\<not> item_deleted it'" by auto
  with Cons.IH [OF store_ok_step [OF Cons.prems(1)], of r it'] Cons.prems(4)
  show ?case by simp
qed

lemma foldl_step_keeps_deleted:
  "store_ok s \<Longrightarrow> map_of (items_map s) i = Some it \<Longrightarrow> item_deleted it \<Longrightarrow>
     \<forall>r \<in> set rs. \<not> replaces_item i r \<Longrightarrow>
     \<exists>it'. map_of (items_map (foldl step s rs)) i = Some it' \<and> item_deleted it'"
proof (induction rs arbitrary: s it)
  case Nil
  then show ?case by simp
next
  case (Cons r rs)
  from step_keeps_deleted [OF Cons.prems(1,2,3), of r] Cons.prems(4) obtain it'
    where "map_of (items_map (step s r)) i = Some it'" and "item_deleted it'" by auto
  with Cons.IH [OF store_ok_step [OF Cons.prems(1)], of r it'] Cons.prems(4)
  show ?case by simp
qed

text \<open>
  C6, as the code has it. \<open>get_item\<close> fails with \<open>NOT_FOUND\<close> exactly when the id is not
  stored or the stored item is deleted, and returns the stored item otherwise. For an
  item that \<open>create_item\<close> returned, in a store built by requests, and any further
  requests that do not delete its id, \<open>get_item\<close> of the id succeeds and returns the item
  stored under the id, which carries that id; it is the created item itself when none
  of the requests replaced or patched the id. \<open>delete_item\<close> of the id then succeeds,
  and after it \<open>get_item\<close> fails with \<open>NOT_FOUND\<close>, also after any further requests that
  do not replace the id.
\<close>

theorem get_item_until_deleted:
  "(is_not_found (get_item s i) \<longleftrightarrow>
      (map_of (items_map s) i = None \<or>
       (\<exists>it. map_of (items_map s) i = Some it \<and> item_deleted it))) \<and>
   (\<not> is_not_found (get_item s i) \<longrightarrow>
      (\<exists>it. map_of (items_map s) i = Some it \<and> get_item s i = Inr it)) \<and>
   ((\<forall>r \<in> set after. \<not> deletes_item (item_id (fst (create_item (run before) q))) r) \<longrightarrow>
      (\<exists>it'. get_item (foldl step (snd (create_item (run before) q)) after)
                (item_id (fst (create_item (run before) q))) = Inr it' \<and>
             item_id it' = item_id (fst (create_item (run before) q)) \<and>
             map_of (items_map (foldl step (snd (create_item (run before) q)) after))
                (item_id (fst (create_item (run before) q))) = Some it') \<and>
      ((\<forall>r \<in> set after. \<not> writes_item (item_id (fst (create_item (run before) q))) r) \<longrightarrow>
         get_item (foldl step (snd (create_item (run before) q)) after)
             (item_id (fst (create_item (run before) q)))
           = Inr (fst (create_item (run before) q))) \<and>
      (\<exists>s'. delete_item (foldl step (snd (create_item (run before) q)) after)
                (item_id (fst (create_item (run before) q))) = Inr s' \<and>
            get_item s' (item_id (fst (create_item (run before) q)))
              = Inl (HTTPException_NOT_FOUND
                       (Item_was_deleted (item_id (fst (create_item (run before) q))))) \<and>
            ((\<forall>r \<in> set later. \<not> replaces_item (item_id (fst (create_item (run before) q))) r) \<longrightarrow>
               get_item (foldl step s' later) (item_id (fst (create_item (run before) q)))
                 = Inl (HTTPException_NOT_FOUND
                          (Item_was_deleted (item_id (fst (create_item (run before) q))))))))"
proof -
  have 1: "is_not_found (get_item s i) \<longleftrightarrow>
      (map_of (items_map s) i = None \<or>
       (\<exists>it. map_of (items_map s) i = Some it \<and> item_deleted it))"
    by (simp add: get_item_cases split: option.splits)
  have 2: "\<not> is_not_found (get_item s i) \<longrightarrow>
      (\<exists>it. map_of (items_map s) i = Some it \<and> get_item s i = Inr it)"
    by (simp add: get_item_cases split: option.splits)
  let ?s1 = "snd (create_item (run before) q)"
  let ?it = "fst (create_item (run before) q)"
  let ?i = "item_id ?it"
  let ?s2 = "foldl step ?s1 after"
  have ok1: "store_ok ?s1" using store_ok_create_item [OF store_ok_run] .
  have ok2: "store_ok ?s2" using ok1 by (rule store_ok_foldl)
  have new: "map_of (items_map ?s1) ?i = Some ?it"
    by (simp add: create_item_def Let_def build_item_def update_conv')
  have live: "\<not> item_deleted ?it" by (simp add: create_item_def Let_def build_item_def)
  have 3: "(\<exists>it'. get_item ?s2 ?i = Inr it' \<and> item_id it' = ?i \<and>
                 map_of (items_map ?s2) ?i = Some it') \<and>
      ((\<forall>r \<in> set after. \<not> writes_item ?i r) \<longrightarrow> get_item ?s2 ?i = Inr ?it) \<and>
      (\<exists>s'. delete_item ?s2 ?i = Inr s' \<and>
            get_item s' ?i = Inl (HTTPException_NOT_FOUND (Item_was_deleted ?i)) \<and>
            ((\<forall>r \<in> set later. \<not> replaces_item ?i r) \<longrightarrow>
               get_item (foldl step s' later) ?i
                 = Inl (HTTPException_NOT_FOUND (Item_was_deleted ?i))))"
    if nd: "\<forall>r \<in> set after. \<not> deletes_item ?i r"
  proof -
    from foldl_step_keeps_live [OF ok1 new live nd] obtain it'
      where it': "map_of (items_map ?s2) ?i = Some it'" and live': "\<not> item_deleted it'"
      by blast
    from it' have "(?i, it') \<in> set (items_map ?s2)" by (rule map_of_SomeD)
    with ok2 have id': "item_id it' = ?i" by (auto simp: store_ok_def)
    have g: "get_item ?s2 ?i = Inr it'" using it' live' by (simp add: get_item_cases)
    have a: "\<exists>it'. get_item ?s2 ?i = Inr it' \<and> item_id it' = ?i \<and>
                 map_of (items_map ?s2) ?i = Some it'"
      using g id' it' by blast
    have b: "get_item ?s2 ?i = Inr ?it" if nw: "\<forall>r \<in> set after. \<not> writes_item ?i r"
    proof -
      from foldl_step_keeps_item [OF ok1 new nw]
      have "map_of (items_map ?s2) ?i = Some ?it" .
      with live show ?thesis by (simp add: get_item_cases)
    qed
    let ?s3 = "?s2\<lparr>items_map := AList.update ?i (it'\<lparr>item_deleted := True\<rparr>) (items_map ?s2)\<rparr>"
    have d: "delete_item ?s2 ?i = Inr ?s3" using delete_item_stored [OF it'] .
    then have s3: "?s3 = step ?s2 (DeleteItem ?i)" by simp
    have ok3: "store_ok ?s3" unfolding s3 using ok2 by (rule store_ok_step)
    have dead: "map_of (items_map ?s3) ?i = Some (it'\<lparr>item_deleted := True\<rparr>)"
      by (simp add: update_conv')
    have g3: "get_item ?s3 ?i = Inl (HTTPException_NOT_FOUND (Item_was_deleted ?i))"
      using dead by (simp add: get_item_cases)
    have g4: "get_item (foldl step ?s3 later) ?i
                 = Inl (HTTPException_NOT_FOUND (Item_was_deleted ?i))"
      if nr: "\<forall>r \<in> set later. \<not> replaces_item ?i r"
    proof -
      from foldl_step_keeps_deleted [OF ok3 dead _ nr] obtain it''
        where "map_of (items_map (foldl step ?s3 later)) ?i = Some it''"
          and "item_deleted it''" by auto
      then show ?thesis by (simp add: get_item_cases)
    qed
    from a b d g3 g4 show ?thesis by blast
  qed
  from 1 2 3 show ?thesis by blast
qed

text \<open>
  An item created in the empty store and then patched, with a cart created in between:
  \<open>get_item\<close> returns the stored item with the id 1, and fails after the item is deleted.
\<close>

theorem get_item_until_deleted_witness:
  "map_of (items_map (run [])) 1 = None \<and>
   is_not_found (get_item (run []) 1) \<and>
   \<not> deletes_item 1 CreateCart \<and>
   \<not> deletes_item 1 (PatchItem 1 \<lparr>upd_name = None, upd_price = Some 7\<rparr>) \<and>
   (\<exists>it'. get_item (foldl step (snd (create_item (run []) \<lparr>req_name = ''apple'', req_price = 10\<rparr>))
                     [CreateCart, PatchItem 1 \<lparr>upd_name = None, upd_price = Some 7\<rparr>]) 1
            = Inr it' \<and> item_id it' = 1) \<and>
   (\<exists>s'. delete_item
            (foldl step (snd (create_item (run []) \<lparr>req_name = ''apple'', req_price = 10\<rparr>))
               [CreateCart, PatchItem 1 \<lparr>upd_name = None, upd_price = Some 7\<rparr>]) 1 = Inr s' \<and>
          get_item s' 1 = Inl (HTTPException_NOT_FOUND (Item_was_deleted 1)))"
proof -
  let ?q = "\<lparr>req_name = ''apple'', req_price = 10\<rparr>"
  let ?after = "[CreateCart, PatchItem 1 \<lparr>upd_name = None, upd_price = Some 7\<rparr>]"
  have a: "map_of (items_map (run [])) 1 = None" by (simp add: run_def empty_store_def)
  have id: "item_id (fst (create_item (run []) ?q)) = 1"
    by (simp add: run_def empty_store_def create_item_def build_item_def Let_def)
  have nd: "\<forall>r \<in> set ?after. \<not> deletes_item (item_id (fst (create_item (run []) ?q))) r"
    by (simp add: id)
  note inst = get_item_until_deleted [of "run []" 1 ?after "[]" ?q "[]"]
  from inst a have b: "is_not_found (get_item (run []) 1)" by blast
  from inst nd have
    "(\<exists>it'. get_item (foldl step (snd (create_item (run []) ?q)) ?after)
                (item_id (fst (create_item (run []) ?q))) = Inr it' \<and>
             item_id it' = item_id (fst (create_item (run []) ?q))) \<and>
      (\<exists>s'. delete_item (foldl step (snd (create_item (run []) ?q)) ?after)
                (item_id (fst (create_item (run []) ?q))) = Inr s' \<and>
            get_item s' (item_id (fst (create_item (run []) ?q)))
              = Inl (HTTPException_NOT_FOUND
                       (Item_was_deleted (item_id (fst (create_item (run []) ?q))))))"
    by blast
  then have c: "(\<exists>it'. get_item (foldl step (snd (create_item (run []) ?q)) ?after) 1 = Inr it' \<and>
             item_id it' = 1) \<and>
      (\<exists>s'. delete_item (foldl step (snd (create_item (run []) ?q)) ?after) 1 = Inr s' \<and>
            get_item s' 1 = Inl (HTTPException_NOT_FOUND (Item_was_deleted 1)))"
    by (simp only: id)
  from a b c show ?thesis by simp
qed

text \<open>
  The created item is not what \<open>get_item\<close> returns once the id was patched, although it
  was never deleted; and \<open>get_item\<close> succeeds again after the item was deleted and then
  replaced.
\<close>

theorem get_item_after_patch_and_after_replace:
  "fst (create_item empty_store \<lparr>req_name = ''apple'', req_price = 10\<rparr>)
     = \<lparr>item_id = 1, item_name = ''apple'', item_price = 10, item_deleted = False\<rparr> \<and>
   get_item (foldl step (snd (create_item empty_store \<lparr>req_name = ''apple'', req_price = 10\<rparr>))
               [PatchItem 1 \<lparr>upd_name = None, upd_price = Some 7\<rparr>]) 1
     = Inr \<lparr>item_id = 1, item_name = ''apple'', item_price = 7, item_deleted = False\<rparr> \<and>
   get_item (foldl step (snd (create_item empty_store \<lparr>req_name = ''apple'', req_price = 10\<rparr>))
               [DeleteItem 1]) 1
     = Inl (HTTPException_NOT_FOUND (Item_was_deleted 1)) \<and>
   get_item (foldl step (snd (create_item empty_store \<lparr>req_name = ''apple'', req_price = 10\<rparr>))
               [DeleteItem 1, PutItem 1 \<lparr>req_name = ''pear'', req_price = 3\<rparr>]) 1
     = Inr \<lparr>item_id = 1, item_name = ''pear'', item_price = 3, item_deleted = False\<rparr>"
  by (simp add: empty_store_def create_item_def build_item_def Let_def get_item_def
        assert_item_exists_def getitem_def patch_item_def delete_item_def put_item_def)

section \<open>Listing items\<close>

lemma apply_offset_limit_take_drop:
  assumes "0 \<le> offset" and "0 \<le> limit"
  shows "apply_offset_limit data offset limit = take (nat limit) (drop (nat offset) data)"
proof (cases "int (length data) \<le> offset")
  case True
  with assms show ?thesis
    by (simp add: apply_offset_limit_def py_slice_def slice_index_def Let_def min_def)
next
  case False
  with assms show ?thesis
    by (auto simp: apply_offset_limit_def py_slice_def slice_index_def Let_def min_def
          nat_diff_distrib nat_add_distrib intro!: take_all)
qed

lemma values_in_creation_order:
  "map item_id (map snd (items_map (run rs))) = [1..int (length (items_map (run rs)))]"
proof -
  have ok: "store_ok (run rs)" by (rule store_ok_run)
  then have "\<forall>e \<in> set (items_map (run rs)). item_id (snd e) = fst e"
    by (auto simp: store_ok_def)
  then have "map item_id (map snd (items_map (run rs))) = map fst (items_map (run rs))"
    by simp
  with ok show ?thesis by (simp add: store_ok_def)
qed

lemma create_item_appends:
  "items_map (snd (create_item (run rs) q)) = items_map (run rs) @ [(item_id (fst (create_item (run rs) q)), fst (create_item (run rs) q))]"
proof -
  have "store_ok (run rs)" by (rule store_ok_run)
  then have "map fst (items_map (run rs)) = [1..int (length (items_map (run rs)))]"
    by (simp add: store_ok_def)
  from keys_upto_append [OF this] show ?thesis
    by (simp add: create_item_def Let_def build_item_def)
qed


lemma item_selected_iff:
  "item_selected min_price max_price show_deleted it \<longleftrightarrow>
     (\<forall>p. min_price = Some p \<longrightarrow> p \<le> item_price it) \<and>
     (\<forall>p. max_price = Some p \<longrightarrow> item_price it \<le> p) \<and>
     (show_deleted \<or> \<not> item_deleted it)"
  by (cases min_price; cases max_price) (simp_all add: item_selected_def)

lemma page_in_creation_order:
  "sorted_wrt (\<lambda>a b. item_id a < item_id b)
     (take n (drop k (items_filtered (run rs) min_price max_price show_deleted)))"
proof -
  have "sorted_wrt (<) (map item_id (map snd (items_map (run rs))))"
    by (simp only: values_in_creation_order strict_sorted_iff sorted_upto distinct_upto simp_thms)
  then have "sorted_wrt (\<lambda>a b. item_id a < item_id b) (map snd (items_map (run rs)))"
    by (simp only: sorted_wrt_map)
  then show ?thesis
    unfolding items_filtered_def
    by (intro sorted_wrt_take sorted_wrt_drop sorted_wrt_filter)
qed

text \<open>
  C8. With accepted query parameters, \<open>get_items\<close> first selects, in the order of the
  catalog, the items whose price lies within the given bounds, both inclusive, and
  which are not deleted unless deleted items are shown, and then returns \<open>limit\<close>
  elements of that selection from position \<open>offset\<close> on, fewer at its end. An offset
  at or beyond the size of the selection gives the empty list; the page is never longer
  than the limit nor than what is left of the selection; offset 0 with the size of the
  selection as limit gives the whole selection. In a store built by requests the
  catalog lists ids \<open>1, \<dots>, n\<close>, each new item at its end, so a page is in creation order.
\<close>

theorem get_items_filters_then_paginates:
  assumes "get_items_query_ok offset limit min_price max_price"
  shows "\<exists>page.
           get_items (run rs) offset limit min_price max_price show_deleted = Inr page \<and>
           page = take (nat limit) (drop (nat offset)
                    (items_filtered (run rs) min_price max_price show_deleted)) \<and>
           (int (length (items_filtered (run rs) min_price max_price show_deleted)) \<le> offset
              \<longrightarrow> page = []) \<and>
           length page \<le> nat limit \<and>
           length page \<le> length (items_filtered (run rs) min_price max_price show_deleted)
                            - nat offset \<and>
           sorted_wrt (\<lambda>a b. item_id a < item_id b) page \<and>
           (offset = 0 \<and>
            limit = int (length (items_filtered (run rs) min_price max_price show_deleted))
              \<longrightarrow> page = items_filtered (run rs) min_price max_price show_deleted) \<and>
           get_items_body (run rs) 0
               (int (length (items_filtered (run rs) min_price max_price show_deleted)))
               min_price max_price show_deleted
             = items_filtered (run rs) min_price max_price show_deleted \<and>
           items_filtered (run rs) min_price max_price show_deleted =
             filter (\<lambda>it. (\<forall>p. min_price = Some p \<longrightarrow> p \<le> item_price it) \<and>
                          (\<forall>p. max_price = Some p \<longrightarrow> item_price it \<le> p) \<and>
                          (show_deleted \<or> \<not> item_deleted it))
                    (map snd (items_map (run rs))) \<and>
           map item_id (map snd (items_map (run rs))) = [1..int (length (items_map (run rs)))] \<and>
           map snd (items_map (snd (create_item (run rs) q)))
             = map snd (items_map (run rs)) @ [fst (create_item (run rs) q)]"
proof -
  let ?f = "items_filtered (run rs) min_price max_price show_deleted"
  let ?page = "take (nat limit) (drop (nat offset) ?f)"
  from assms have off: "0 \<le> offset" and lim: "0 < limit"
    by (simp_all add: get_items_query_ok_def query_ge_def query_gt_def)
  have body: "get_items_body (run rs) offset limit min_price max_price show_deleted = ?page"
    using off lim by (simp add: get_items_body_def apply_offset_limit_take_drop)
  have g: "get_items (run rs) offset limit min_price max_price show_deleted = Inr ?page"
    using assms body by (simp add: get_items_def)
  have e: "int (length ?f) \<le> offset \<longrightarrow> ?page = []" using off by auto
  have l1: "length ?page \<le> nat limit" by simp
  have l2: "length ?page \<le> length ?f - nat offset" by simp
  have srt: "sorted_wrt (\<lambda>a b. item_id a < item_id b) ?page" by (rule page_in_creation_order)
  have all: "offset = 0 \<and> limit = int (length ?f) \<longrightarrow> ?page = ?f" by simp
  have all': "get_items_body (run rs) 0 (int (length ?f)) min_price max_price show_deleted = ?f"
    by (simp add: get_items_body_def apply_offset_limit_take_drop)
  have sel: "?f = filter (\<lambda>it. (\<forall>p. min_price = Some p \<longrightarrow> p \<le> item_price it) \<and>
                          (\<forall>p. max_price = Some p \<longrightarrow> item_price it \<le> p) \<and>
                          (show_deleted \<or> \<not> item_deleted it))
                    (map snd (items_map (run rs)))"
    unfolding items_filtered_def
    by (rule filter_cong [OF refl]) (simp only: item_selected_iff)
  have app: "map snd (items_map (snd (create_item (run rs) q)))
             = map snd (items_map (run rs)) @ [fst (create_item (run rs) q)]"
    by (simp add: create_item_appends)
  from g e l1 l2 srt all all' sel values_in_creation_order [of rs] app
  show ?thesis by blast
qed


text \<open>The scenario with the bounds 5 and 10, which both items meet: the second page of size 1 holds item 2 and the third is empty.\<close>

theorem get_items_filters_then_paginates_witness:
  "get_items_query_ok 1 1 (Some 5) (Some 10) \<and>
   get_items (run scenario) 1 1 (Some 5) (Some 10) True
     = Inr [\<lparr>item_id = 2, item_name = ''banana'', item_price = 5, item_deleted = False\<rparr>] \<and>
   get_items_query_ok 2 1 (Some 5) (Some 10) \<and>
   get_items (run scenario) 2 1 (Some 5) (Some 10) True = Inr []"
proof -
  have a: "get_items_query_ok 1 1 (Some 5) (Some 10)"
    and b: "get_items_query_ok 2 1 (Some 5) (Some 10)"
    by (simp_all add: get_items_query_ok_def query_ge_def query_gt_def)
  have f: "items_filtered (run scenario) (Some 5) (Some 10) True =
             [\<lparr>item_id = 1, item_name = ''apple'', item_price = 10, item_deleted = False\<rparr>,
              \<lparr>item_id = 2, item_name = ''banana'', item_price = 5, item_deleted = False\<rparr>]"
    by (simp add: items_filtered_def run_scenario item_selected_def)
  from get_items_filters_then_paginates [OF a, of scenario True]
  have c: "get_items (run scenario) 1 1 (Some 5) (Some 10) True
     = Inr [\<lparr>item_id = 2, item_name = ''banana'', item_price = 5, item_deleted = False\<rparr>]"
    by (auto simp: f)
  from get_items_filters_then_paginates [OF b, of scenario True]
  have d: "get_items (run scenario) 2 1 (Some 5) (Some 10) True = Inr []"
    by (auto simp: f)
  from a b c d show ?thesis by simp
qed

section \<open>Query parameters at the boundary\<close>

lemma build_cart_responses_Inl:
  "build_cart_responses ops im cs = Inl e \<Longrightarrow> e = AttributeError"
  by (induction cs) (auto split: sum.splits dest: build_cart_response_Inl)

lemma get_carts_body_not_rejected:
  "get_carts_body ops s offset limit a b mq xq \<noteq> Inl RequestValidationError"
  by (auto simp: get_carts_body_def split: sum.splits dest: build_cart_responses_Inl)

text \<open>
  C9, as the code has it. With the other parameters within their bounds, the cart list
  accepts \<open>min_price\<close> and \<open>max_price\<close> exactly when each is left out or at least 0, so 0
  is accepted there; the item list accepts them exactly when each is left out or
  greater than 0, and rejects the value 0 for either with a validation error.
\<close>

theorem price_bounds_at_the_boundary:
  assumes "0 \<le> offset" and "0 < limit"
    and "query_ge 0 min_quantity" and "query_ge 0 max_quantity"
  shows "(get_carts ops s offset limit min_price max_price min_quantity max_quantity
            \<noteq> Inl RequestValidationError \<longleftrightarrow>
          (\<forall>p. min_price = Some p \<longrightarrow> 0 \<le> p) \<and> (\<forall>p. max_price = Some p \<longrightarrow> 0 \<le> p)) \<and>
         (get_items s offset limit min_price max_price show_deleted
            \<noteq> Inl RequestValidationError \<longleftrightarrow>
          (\<forall>p. min_price = Some p \<longrightarrow> 0 < p) \<and> (\<forall>p. max_price = Some p \<longrightarrow> 0 < p)) \<and>
         get_items s offset limit (Some 0) max_price show_deleted = Inl RequestValidationError \<and>
         get_items s offset limit min_price (Some 0) show_deleted = Inl RequestValidationError"
proof -
  have carts: "get_carts_query_ok offset limit min_price max_price min_quantity max_quantity
                 \<longleftrightarrow> (\<forall>p. min_price = Some p \<longrightarrow> 0 \<le> p) \<and> (\<forall>p. max_price = Some p \<longrightarrow> 0 \<le> p)"
    using assms
    by (cases min_price; cases max_price)
       (simp_all add: get_carts_query_ok_def query_ge_def query_gt_def)
  have items: "get_items_query_ok offset limit a b
                 \<longleftrightarrow> (\<forall>p. a = Some p \<longrightarrow> 0 < p) \<and> (\<forall>p. b = Some p \<longrightarrow> 0 < p)" for a b
    using assms
    by (cases a; cases b) (simp_all add: get_items_query_ok_def query_ge_def query_gt_def)
  have 1: "get_carts ops s offset limit min_price max_price min_quantity max_quantity
            \<noteq> Inl RequestValidationError \<longleftrightarrow>
          (\<forall>p. min_price = Some p \<longrightarrow> 0 \<le> p) \<and> (\<forall>p. max_price = Some p \<longrightarrow> 0 \<le> p)"
    unfolding carts [symmetric]
    by (simp add: get_carts_def get_carts_body_not_rejected)
  have 2: "get_items s offset limit a b show_deleted \<noteq> Inl RequestValidationError \<longleftrightarrow>
          (\<forall>p. a = Some p \<longrightarrow> 0 < p) \<and> (\<forall>p. b = Some p \<longrightarrow> 0 < p)" for a b
    unfolding items [symmetric] by (simp add: get_items_def)
  from 2 [of "Some 0" max_price]
  have 3: "get_items s offset limit (Some 0) max_price show_deleted = Inl RequestValidationError"
    by simp
  from 2 [of min_price "Some 0"]
  have 4: "get_items s offset limit min_price (Some 0) show_deleted = Inl RequestValidationError"
    by simp
  from 1 2 [of min_price max_price] 3 4 show ?thesis by blast
qed

text \<open>The value 0 for both bounds passes the cart list; as a lower bound it is rejected by the item list, which accepts 1.\<close>

theorem price_bounds_at_the_boundary_witness:
  "(0::int) \<le> 0 \<and> (0::int) < 10 \<and> query_ge (0::int) None \<and>
   get_carts double_arith (run scenario) 0 10 (Some 0) (Some 0) None None \<noteq> Inl RequestValidationError \<and>
   get_items (run scenario) 0 10 (Some 0) None True = Inl RequestValidationError \<and>
   get_items (run scenario) 0 10 (Some 1) (Some 1) True \<noteq> Inl RequestValidationError"
proof -
  have a: "(0::int) \<le> 0" and b: "(0::int) < 10" and c: "query_ge (0::int) None"
    by (simp_all add: query_ge_def)
  from price_bounds_at_the_boundary [OF a b c c, of double_arith "run scenario" "Some 0" "Some 0"]
  have d: "get_carts double_arith (run scenario) 0 10 (Some 0) (Some 0) None None \<noteq> Inl RequestValidationError"
    by simp
  from price_bounds_at_the_boundary [OF a b c c, of double_arith "run scenario" None None True]
  have e: "get_items (run scenario) 0 10 (Some 0) None True = Inl RequestValidationError"
    by blast
  from price_bounds_at_the_boundary [OF a b c c, of double_arith "run scenario" "Some 1" "Some 1" True]
  have f: "get_items (run scenario) 0 10 (Some 1) (Some 1) True \<noteq> Inl RequestValidationError"
    by simp
  from a b c d e f show ?thesis by blast
qed

text \<open>On the empty store the item list rejects 0 for either bound and the cart list accepts it.\<close>

theorem item_list_rejects_zero_price_bound:
  "get_items empty_store 0 10 (Some 0) None True = Inl RequestValidationError \<and>
   get_items empty_store 0 10 None (Some 0) True = Inl RequestValidationError \<and>
   get_carts double_arith empty_store 0 10 (Some 0) (Some 0) None None = Inr []"
  by (simp add: get_items_def get_items_query_ok_def get_carts_def get_carts_query_ok_def
        get_carts_body_def query_ge_def query_gt_def empty_store_def apply_offset_limit_def
        py_slice_def slice_index_def)

section \<open>Reuse of cart ids\<close>

lemma create_item_id_is_fresh:
  "map_of (items_map (run rs)) (item_id (fst (create_item (run rs) q))) = None"
proof -
  have "store_ok (run rs)" by (rule store_ok_run)
  then have keys: "map fst (items_map (run rs)) = [1..int (length (items_map (run rs)))]"
    by (simp add: store_ok_def)
  from keys_upto_present [OF keys, of "int (length (items_map (run rs))) + 1"]
  show ?thesis by (simp add: create_item_def Let_def build_item_def)
qed

text \<open>
  C1 fails for carts. In the scenario the cart with id 3 holds three item references; the
  next \<open>create_cart\<close> returns the id 3 again, since no item was created in between, and
  stores an empty cart over it. From the empty store two \<open>create_cart\<close> calls in a
  row both return the id 1.
\<close>

theorem create_cart_reuses_cart_id:
  "map_of (cart_map (run scenario)) 3 = Some \<lparr>cart_id = 3, cart_item_ids = [1, 1, 2]\<rparr> \<and>
   fst (create_cart (run scenario)) = 3 \<and>
   cart_map (snd (create_cart (run scenario))) = [(3, \<lparr>cart_id = 3, cart_item_ids = []\<rparr>)] \<and>
   fst (create_cart empty_store) = 1 \<and>
   fst (create_cart (snd (create_cart empty_store))) = 1"
  by (simp add: run_scenario create_cart_def empty_store_def Let_def)

end
